theory Spec2Isabelle
  imports Main
begin

section \<open>Phone-number validation (CallPhoneNumber.validatePhoneNumber)\<close>

text \<open>
  The source:
  \<^verbatim>\<open>
  const validatePhoneNumber = (phoneNumber: string) => {
    return (
      phoneNumber.startsWith("+") &&
      phoneNumber.slice(1).match(/^\d+$/) !== null
    );
  };
  \<close>
  A JavaScript string is modelled as a \<open>string\<close>. The regular expression has neither
  the \<open>u\<close> nor the \<open>m\<close> flag: \<open>\d\<close> is one of the ten ASCII digits, \<open>^\<close> is the start and
  \<open>$\<close> the very end of the input. A \<open>char\<close> is one of the first 256 code units; a string
  with any other code unit is rejected by the source, as every string with a non-digit
  after the first character is.
\<close>

definition startsWith :: "string \<Rightarrow> string \<Rightarrow> bool" where
  "startsWith s p = (take (length p) s = p)"

definition slice :: "nat \<Rightarrow> string \<Rightarrow> string" where
  "slice n s = drop n s"

definition isDigit :: "char \<Rightarrow> bool" where
  "isDigit c = (48 \<le> (of_char c :: nat) \<and> (of_char c :: nat) \<le> 57)"

text \<open>The rest of the pattern once one digit is read: further digits up to the end.\<close>

fun digits_to_end :: "string \<Rightarrow> bool" where
  "digits_to_end [] = True"
| "digits_to_end (c # cs) = (isDigit c \<and> digits_to_end cs)"

text \<open>\<^verbatim>\<open>s.match(/^\d+$/) !== null\<close>: at least one digit, digits only.\<close>

fun match_digits :: "string \<Rightarrow> bool" where
  "match_digits [] = False"
| "match_digits (c # cs) = (isDigit c \<and> digits_to_end cs)"

definition validatePhoneNumber :: "string \<Rightarrow> bool" where
  "validatePhoneNumber phoneNumber =
     (startsWith phoneNumber ''+'' \<and> match_digits (slice 1 phoneNumber))"

section \<open>The peer-to-peer session controller (AudioConnection)\<close>

text \<open>
  The component keeps two pieces of React state that matter here (\<open>isSessionActive\<close>,
  \<open>settingUpSession\<close>), the \<open>dataChannel\<close> state, and three refs (\<open>sessionData\<close>,
  \<open>sessionId\<close>, \<open>peerConnection\<close>). Everything runs on the browser's event loop: a
  handler runs to its next \<open>await\<close>, and other handlers may run before it resumes. The
  model is a state record and one function per handler or continuation; \<open>step\<close> below
  runs one event-loop task.

  An event is typed \<^verbatim>\<open>Record<string, string>\<close> in the source: an association list.
  Connection and channel objects are handles (natural numbers, allocated from \<open>fresh\<close>).
\<close>

type_synonym event = "(string \<times> string) list"
type_synonym user_info = "(string \<times> string) list"

text \<open>The outcome of \<^verbatim>\<open>JSON.parse(e.data)\<close>: it throws on text that is not JSON.\<close>

datatype parsed = SyntaxError | Parsed event

text \<open>What the controller does to the outside world, in order.\<close>

datatype effect =
    StoreSession string "event list" user_info
  | ToastError string
  | CloseDataChannel nat
  | ClosePeerConnection nat

text \<open>
  A call of \<open>startSession\<close> that is suspended at an \<open>await\<close>, with the local variable
  \<open>pc\<close> it holds; or finished, by returning or by an exception nobody catches.
\<close>

datatype phase =
    AwaitingCredential
  | AwaitingMedia nat
  | AwaitingAnswer nat
  | Returned
  | Rejected

text \<open>
  A pending \<open>setTimeout\<close> callback of \<open>stopSession\<close>: the time it is due, and the
  \<open>dataChannel\<close> and \<open>props.userInfo\<close> its closure captured.
\<close>

type_synonym timer = "nat \<times> nat option \<times> user_info"

record controller =
  isSessionActive :: bool
  settingUpSession :: bool
  dataChannel :: "nat option"
  sessionData :: "event list"
  sessionId :: "string option"
  peerConnection :: "nat option"
  userInfo :: user_info
  listeners :: "(nat \<times> user_info) list"
  starts :: "phase list"
  timers :: "timer list"
  awaiting :: nat
  now :: nat
  fresh :: nat
  effects :: "effect list"

definition init :: "user_info \<Rightarrow> controller" where
  "init u = \<lparr> isSessionActive = False, settingUpSession = False, dataChannel = None,
     sessionData = [], sessionId = None, peerConnection = None, userInfo = u,
     listeners = [], starts = [], timers = [], awaiting = 0, now = 0, fresh = 0,
     effects = [] \<rparr>"

text \<open>
  \<open>setDataChannel\<close>, together with the effect hook that depends on \<open>dataChannel\<close>: when
  the value changes to a channel, the hook attaches the message and open listeners to
  it, and their closures hold the \<open>stopSession\<close> of that render.
\<close>

definition setDataChannel :: "nat option \<Rightarrow> controller \<Rightarrow> controller" where
  "setDataChannel d s =
     (case d of
        None \<Rightarrow> s\<lparr>dataChannel := None\<rparr>
      | Some c \<Rightarrow>
          if dataChannel s = Some c then s
          else s\<lparr>dataChannel := Some c, listeners := listeners s @ [(c, userInfo s)]\<rparr>)"

subsection \<open>startSession, one continuation per await\<close>

text \<open>Up to \<^verbatim>\<open>await createSession(props.userInfo)\<close>.\<close>

definition startSession_begin :: "controller \<Rightarrow> controller" where
  "startSession_begin s =
     s\<lparr>settingUpSession := True, starts := starts s @ [AwaitingCredential]\<rparr>"

text \<open>
  \<open>createSession\<close> catches its own errors and resolves to \<open>null\<close> on failure, else to
  the id and the key. Then up to \<^verbatim>\<open>await navigator.mediaDevices.getUserMedia\<close>.
\<close>

definition startSession_credential ::
  "(string \<times> string) option \<Rightarrow> controller \<Rightarrow> phase \<times> controller" where
  "startSession_credential tokenResponse s =
     (case tokenResponse of
        None \<Rightarrow>
          (Returned,
           s\<lparr>settingUpSession := False,
             effects := effects s @ [ToastError ''Failed to start call, please try again'']\<rparr>)
      | Some (ident, key) \<Rightarrow>
          (AwaitingMedia (fresh s), s\<lparr>sessionId := Some ident, fresh := fresh s + 1\<rparr>))"

text \<open>
  \<open>getUserMedia\<close> resolves (\<open>True\<close>) or rejects (\<open>False\<close>); nothing in \<open>startSession\<close>
  catches the rejection. On success the data channel is created and stored, and the
  call runs up to the awaits of the SDP exchange.
\<close>

definition startSession_media :: "nat \<Rightarrow> bool \<Rightarrow> controller \<Rightarrow> phase \<times> controller" where
  "startSession_media pc ok s =
     (if ok then (AwaitingAnswer pc, setDataChannel (Some (fresh s)) (s\<lparr>fresh := fresh s + 1\<rparr>))
      else (Rejected, s))"

text \<open>
  The offer, the HTTP exchange and \<open>setRemoteDescription\<close> all resolve (\<open>True\<close>), or
  one of them rejects (\<open>False\<close>). The last statement stores \<open>pc\<close> in the ref.
\<close>

definition startSession_answer :: "nat \<Rightarrow> bool \<Rightarrow> controller \<Rightarrow> phase \<times> controller" where
  "startSession_answer pc ok s =
     (if ok then (Returned, s\<lparr>peerConnection := Some pc\<rparr>) else (Rejected, s))"

datatype outcome = Credential "(string \<times> string) option" | Media bool | Answer bool

definition resume :: "nat \<Rightarrow> outcome \<Rightarrow> controller \<Rightarrow> controller" where
  "resume k out s =
     (if k < length (starts s) then
        (let (ph, s') =
           (case (starts s ! k, out) of
              (AwaitingCredential, Credential r) \<Rightarrow> startSession_credential r s
            | (AwaitingMedia pc, Media ok) \<Rightarrow> startSession_media pc ok s
            | (AwaitingAnswer pc, Answer ok) \<Rightarrow> startSession_answer pc ok s
            | (ph, _) \<Rightarrow> (ph, s))
         in s'\<lparr>starts := (starts s')[k := ph]\<rparr>)
      else s)"

subsection \<open>stopSession and its deferred teardown\<close>

text \<open>
  \<open>stopSession(timeout)\<close> clears the active flag at once and registers the teardown
  with \<open>setTimeout\<close>. \<open>dc\<close> and \<open>u\<close> are the \<open>dataChannel\<close> and \<open>props.userInfo\<close> of the
  render whose \<open>stopSession\<close> is called.
\<close>

definition stopSession :: "nat \<Rightarrow> nat option \<Rightarrow> user_info \<Rightarrow> controller \<Rightarrow> controller" where
  "stopSession timeout dc u s =
     s\<lparr>isSessionActive := False, timers := timers s @ [(now s + timeout, dc, u)]\<rparr>"

text \<open>The statements after \<^verbatim>\<open>await storeSession(...)\<close>: all session state is cleared.\<close>

definition teardown_end :: "controller \<Rightarrow> controller" where
  "teardown_end s =
     (setDataChannel None s)\<lparr>peerConnection := None, sessionId := None, sessionData := []\<rparr>"

text \<open>
  The timer callback up to its \<open>await\<close>. \<^verbatim>\<open>sessionId.current && ...\<close> is false for
  \<open>null\<close> and for the empty string. When \<open>storeSession\<close> is called the callback is
  suspended until the request settles; when it is not, there is no \<open>await\<close> and the
  clearing follows at once.
\<close>

definition teardown_begin :: "user_info \<Rightarrow> nat option \<Rightarrow> controller \<Rightarrow> controller" where
  "teardown_begin u dc s =
     (let s1 = (case dc of
                  None \<Rightarrow> s
                | Some c \<Rightarrow> s\<lparr>effects := effects s @ [CloseDataChannel c]\<rparr>);
          s2 = (case peerConnection s1 of
                  None \<Rightarrow> s1
                | Some p \<Rightarrow> s1\<lparr>effects := effects s1 @ [ClosePeerConnection p]\<rparr>)
      in case sessionId s2 of
           None \<Rightarrow> teardown_end s2
         | Some ident \<Rightarrow>
             if ident \<noteq> [] \<and> sessionData s2 \<noteq> [] then
               s2\<lparr>effects := effects s2 @ [StoreSession ident (sessionData s2) u],
                  awaiting := awaiting s2 + 1\<rparr>
             else teardown_end s2)"

text \<open>
  \<open>storeSession\<close> catches its own errors, so the awaited promise always resolves and
  the suspended teardown continues.
\<close>

definition store_settles :: "controller \<Rightarrow> controller" where
  "store_settles s =
     (if awaiting s = 0 then s else teardown_end (s\<lparr>awaiting := awaiting s - 1\<rparr>))"

text \<open>The pending timer that is due first; among equals, the one registered first.\<close>

fun earliest :: "timer \<Rightarrow> timer list \<Rightarrow> timer" where
  "earliest t [] = t"
| "earliest t (x # xs) = (if fst x < fst t then earliest x xs else earliest t xs)"

definition timer_fires :: "controller \<Rightarrow> controller" where
  "timer_fires s =
     (case timers s of
        [] \<Rightarrow> s
      | t # ts \<Rightarrow>
          (let (due, dc, u) = earliest t ts
           in if due \<le> now s
              then teardown_begin u dc (s\<lparr>timers := remove1 (due, dc, u) (timers s)\<rparr>)
              else s))"

subsection \<open>The data-channel listeners and the button\<close>

definition is_hang_up :: "event \<Rightarrow> bool" where
  "is_hang_up event =
     (map_of event ''type'' = Some ''response.function_call_arguments.done'' \<and>
      map_of event ''name'' = Some ''hang_up'')"

text \<open>
  The message listener of channel \<open>c\<close>. When \<open>JSON.parse\<close> throws, the listener ends
  before the push.
\<close>

definition on_message :: "nat \<Rightarrow> user_info \<Rightarrow> parsed \<Rightarrow> controller \<Rightarrow> controller" where
  "on_message c u p s =
     (case p of
        SyntaxError \<Rightarrow> s
      | Parsed event \<Rightarrow>
          (let s' = s\<lparr>sessionData := sessionData s @ [event]\<rparr>
           in if is_hang_up event then stopSession 10000 (Some c) u s' else s'))"

definition on_open :: "controller \<Rightarrow> controller" where
  "on_open s = s\<lparr>isSessionActive := True, settingUpSession := False\<rparr>"

definition click :: "controller \<Rightarrow> controller" where
  "click s =
     (if isSessionActive s then stopSession 0 (dataChannel s) (userInfo s) s
      else startSession_begin s)"

subsection \<open>The event loop\<close>

datatype action =
    Click
  | Resume nat outcome
  | ChannelOpen nat
  | ChannelMessage nat parsed
  | Tick nat
  | TimerFires
  | StoreSettles
  | PropsChange user_info

fun step :: "action \<Rightarrow> controller \<Rightarrow> controller" where
  "step Click s = click s"
| "step (Resume k out) s = resume k out s"
| "step (ChannelOpen c) s =
     (case map_of (listeners s) c of None \<Rightarrow> s | Some u \<Rightarrow> on_open s)"
| "step (ChannelMessage c p) s =
     (case map_of (listeners s) c of None \<Rightarrow> s | Some u \<Rightarrow> on_message c u p s)"
| "step (Tick d) s = s\<lparr>now := now s + d\<rparr>"
| "step TimerFires s = timer_fires s"
| "step StoreSettles s = store_settles s"
| "step (PropsChange u) s = s\<lparr>userInfo := u\<rparr>"

definition run :: "action list \<Rightarrow> controller \<Rightarrow> controller" where
  "run acts s = foldl (\<lambda>s a. step a s) s acts"

text \<open>The \<open>storeSession\<close> calls among the effects.\<close>

fun is_store :: "effect \<Rightarrow> bool" where
  "is_store (StoreSession i d u) = True"
| "is_store _ = False"

definition store_calls :: "controller \<Rightarrow> effect list" where
  "store_calls s = filter is_store (effects s)"

fun is_toast :: "effect \<Rightarrow> bool" where
  "is_toast (ToastError m) = True"
| "is_toast _ = False"

definition toasts :: "controller \<Rightarrow> effect list" where
  "toasts s = filter is_toast (effects s)"


text \<open>
  The event that a step appends to the log: the one of a message that parses, on a
  channel whose message listener is attached.
\<close>

fun delivered :: "controller \<Rightarrow> action \<Rightarrow> event list" where
  "delivered s (ChannelMessage c (Parsed e)) =
     (case map_of (listeners s) c of None \<Rightarrow> [] | Some u \<Rightarrow> [e])"
| "delivered s a = []"

text \<open>The arrival sequence of a run: the events delivered by its steps, in order.\<close>

fun arrivals :: "action list \<Rightarrow> controller \<Rightarrow> event list" where
  "arrivals [] s = []"
| "arrivals (a # acts) s = delivered s a @ arrivals acts (step a s)"

subsection \<open>Scenarios\<close>

definition hang_up_event :: event where
  "hang_up_event =
     [(''type'', ''response.function_call_arguments.done''), (''name'', ''hang_up'')]"

definition audio_event :: event where
  "audio_event = [(''type'', ''response.audio_transcript.done'')]"

definition done_event :: event where
  "done_event = [(''type'', ''response.done'')]"

text \<open>A session is started with the button and its channel (handle 1) opens.\<close>

definition session_open :: "action list" where
  "session_open =
     [Click, Resume 0 (Credential (Some (''sess_1'', ''ek_1''))), Resume 0 (Media True),
      Resume 0 (Answer True), ChannelOpen 1]"

text \<open>
  The agent hangs up; nine seconds later, within the grace period, the user presses
  the button again. The second session has its credential when the teardown of the
  first one runs, and goes on afterwards: its channel (handle 3) opens and delivers an
  event, and the user stops it.
\<close>

definition redial :: "action list" where
  "redial =
     session_open @
     [ChannelMessage 1 (Parsed hang_up_event), Tick 9000,
      Click, Resume 1 (Credential (Some (''sess_2'', ''ek_2''))),
      Tick 1000, TimerFires, StoreSettles,
      Resume 1 (Media True), Resume 1 (Answer True), ChannelOpen 3,
      ChannelMessage 3 (Parsed done_event), Click]"

text \<open>
  The agent's hang-up call arrives twice; both timers are due when the first teardown
  is still waiting for its request.
\<close>

definition double_hang_up :: "action list" where
  "double_hang_up =
     session_open @
     [ChannelMessage 1 (Parsed hang_up_event), ChannelMessage 1 (Parsed hang_up_event),
      Tick 10000, TimerFires, TimerFires, StoreSettles, StoreSettles]"

text \<open>
  Within the grace period after a hang-up two more events arrive, and the scheduler
  looks at the timers twice; one millisecond later the period is over.
\<close>

definition grace_period :: "action list" where
  "grace_period =
     [Tick 5000, ChannelMessage 1 (Parsed audio_event), TimerFires,
      Tick 4999, ChannelMessage 1 (Parsed done_event), TimerFires]"

text \<open>Three messages arrive, the second one is not JSON; then the user stops the session.\<close>

definition garbled :: "action list" where
  "garbled =
     session_open @
     [ChannelMessage 1 (Parsed audio_event), ChannelMessage 1 SyntaxError,
      ChannelMessage 1 (Parsed done_event), Click, TimerFires]"

text \<open>The credential arrives, then the user refuses the microphone.\<close>

definition microphone_refused :: "action list" where
  "microphone_refused =
     [Click, Resume 0 (Credential (Some (''sess_1'', ''ek_1''))), Resume 0 (Media False)]"

definition credential_refused :: "action list" where
  "credential_refused = [Click, Resume 0 (Credential None)]"

section \<open>Agent versions (AgentConfiguration.handleSaveVersion)\<close>

text \<open>
  The fields of \<open>Agent\<close> that the component reads (\<open>id\<close> is \<open>version_id\<close> here).
\<close>

record agent =
  version_id :: string
  base_id :: string
  name :: string
  system_message :: string
  active :: bool
  created_at :: string

datatype notice = Success string | Failure string

record agent_configuration =
  agents :: "agent list"
  agentId :: "(string \<times> string) option"
  newVersion :: "agent option"
  saveLoading :: bool
  notices :: "notice list"

text \<open>
  \<open>createNewAgentVersion\<close> is a request to the backend: a parameter, from the name, the
  instructions, the base id and the active flag sent to the record received, \<open>None\<close>
  for \<open>null\<close>. The call of \<open>extractFields\<close> only sets the sample fields of the parent
  component, which are not part of this record.
\<close>

definition handleSaveVersion ::
  "(string \<Rightarrow> string \<Rightarrow> string \<Rightarrow> bool \<Rightarrow> agent option) \<Rightarrow>
   agent_configuration \<Rightarrow> agent_configuration" where
  "handleSaveVersion createNewAgentVersion s =
     (case newVersion s of
        None \<Rightarrow> s
      | Some nv \<Rightarrow>
          (case createNewAgentVersion (name nv) (system_message nv) (base_id nv) (active nv) of
             Some response \<Rightarrow>
               s\<lparr>saveLoading := False,
                 agents := response # map (\<lambda>agent. agent\<lparr>active := False\<rparr>) (agents s),
                 agentId := Some (base_id response, version_id response),
                 newVersion := None,
                 notices := notices s @ [Success ''Version saved'']\<rparr>
           | None \<Rightarrow>
               s\<lparr>saveLoading := False,
                 notices := notices s @ [Failure ''Failed to save version'']\<rparr>))"

text \<open>The versions of base \<open>b\<close> that are marked active.\<close>

definition active_versions :: "string \<Rightarrow> agent list \<Rightarrow> agent list" where
  "active_versions b as = filter (\<lambda>a. base_id a = b \<and> active a) as"

text \<open>Two agents, one active version each; the first one is edited and saved.\<close>

definition intake_v1 :: agent where
  "intake_v1 = \<lparr> version_id = ''v1'', base_id = ''intake'', name = ''Intake'',
     system_message = ''Hi {name}'', active = True, created_at = ''2025-01-01'' \<rparr>"

definition recall_v1 :: agent where
  "recall_v1 = \<lparr> version_id = ''v7'', base_id = ''recall'', name = ''Recall'',
     system_message = ''Hello {name}'', active = True, created_at = ''2025-01-02'' \<rparr>"

definition intake_v2 :: agent where
  "intake_v2 = \<lparr> version_id = ''v2'', base_id = ''intake'', name = ''Intake'',
     system_message = ''Hi {name}, you are {age}'', active = True,
     created_at = ''2025-01-03'' \<rparr>"

definition editing_intake :: agent_configuration where
  "editing_intake = \<lparr> agents = [intake_v1, recall_v1], agentId = Some (''intake'', ''v1''),
     newVersion = Some (intake_v1\<lparr>system_message := ''Hi {name}, you are {age}''\<rparr>),
     saveLoading = False, notices = [] \<rparr>"

section \<open>Streams consumed in the background\<close>

text \<open>
  What a \<^verbatim>\<open>for await\<close> loop sees of an async generator so far: payloads, then perhaps
  its end or an exception. A consumer whose stream has neither ended nor thrown is
  still waiting for the next payload.
\<close>

datatype 'a stream_event = Yield 'a | Done | Throw string

datatype consumer = Consuming | Finished

subsection \<open>The speaker stream of a phone call (PrimaryPage.handleCallPhoneNumber)\<close>

datatype speaker = User | Assistant

record 'n payload =
  timestamp :: 'n
  speaker :: speaker

text \<open>\<open>audioRef\<close> is \<open>None\<close> while no audio element is mounted, else the element's \<open>src\<close>.\<close>

record 'n primary_page =
  phoneCallId :: "string option"
  isPlaying :: bool
  speakerIntervals :: "'n payload list"
  audioRef :: "string option"
  toast_errors :: "string list"
  console_errors :: "string list"

text \<open>The three statements after the \<open>try\<close> block.\<close>

definition reset_call :: "'n primary_page \<Rightarrow> 'n primary_page" where
  "reset_call s = s\<lparr>isPlaying := False, phoneCallId := None, speakerIntervals := []\<rparr>"

text \<open>
  The background task: each payload is pushed; the end of the stream leaves the loop,
  an exception is caught and logged; both go on to the reset.
\<close>

fun speaker_task :: "'n payload stream_event list \<Rightarrow> 'n primary_page \<Rightarrow> consumer \<times> 'n primary_page" where
  "speaker_task [] s = (Consuming, s)"
| "speaker_task (Yield p # rest) s =
     speaker_task rest (s\<lparr>speakerIntervals := speakerIntervals s @ [p]\<rparr>)"
| "speaker_task (Done # rest) s = (Finished, reset_call s)"
| "speaker_task (Throw e # rest) s =
     (Finished, reset_call (s\<lparr>console_errors := console_errors s @ [e]\<rparr>))"

text \<open>
  \<open>outboundCall\<close> resolves to the call id, or to \<open>null\<close> on failure. The function
  returns once the background task is launched; \<open>stream\<close> is what \<open>streamSpeaker\<close>
  delivers to that task.
\<close>

definition handleCallPhoneNumber ::
  "string option \<Rightarrow> 'n payload stream_event list \<Rightarrow> 'n primary_page \<Rightarrow> consumer \<times> 'n primary_page" where
  "handleCallPhoneNumber response stream s =
     (case response of
        None \<Rightarrow>
          (Finished, s\<lparr>toast_errors := toast_errors s @ [''Failed to start call, please try again'']\<rparr>)
      | Some phone_call_id \<Rightarrow>
          speaker_task stream
            (s\<lparr>phoneCallId := Some phone_call_id, isPlaying := True,
               audioRef := (case audioRef s of
                              None \<Rightarrow> None
                            | Some src \<Rightarrow> Some (''/api/v1/phone/stream-audio/'' @ phone_call_id))\<rparr>))"

subsection \<open>The metadata stream of a live call (LiveCallDisplay.runMetadataStream)\<close>

record 'seg metadata =
  type :: string
  data :: "'seg list"

record 'seg live_call =
  speakerSegments :: "'seg list"
  callEnded :: bool
  logged_errors :: "string list"

fun metadata_loop :: "'seg metadata stream_event list \<Rightarrow> 'seg live_call \<Rightarrow> consumer \<times> 'seg live_call" where
  "metadata_loop [] s = (Consuming, s)"
| "metadata_loop (Yield payload # rest) s =
     (if type payload = ''call_end'' then (Finished, s\<lparr>callEnded := True\<rparr>)
      else metadata_loop rest (s\<lparr>speakerSegments := data payload\<rparr>))"
| "metadata_loop (Done # rest) s = (Finished, s)"
| "metadata_loop (Throw e # rest) s = (Finished, s\<lparr>logged_errors := logged_errors s @ [e]\<rparr>)"

text \<open>\<^verbatim>\<open>if (!props.phoneCallId) return;\<close> holds for \<open>null\<close> and for the empty string.\<close>

definition runMetadataStream ::
  "string option \<Rightarrow> 'seg metadata stream_event list \<Rightarrow> 'seg live_call \<Rightarrow> consumer \<times> 'seg live_call" where
  "runMetadataStream props_phoneCallId stream s =
     (case props_phoneCallId of
        None \<Rightarrow> (Finished, s)
      | Some ident \<Rightarrow> if ident = [] then (Finished, s) else metadata_loop stream s)"

subsection \<open>Scenarios\<close>

definition idle_page :: "int primary_page" where
  "idle_page = \<lparr> phoneCallId = None, isPlaying = False, speakerIntervals = [],
     audioRef = Some [], toast_errors = [], console_errors = [] \<rparr>"

definition first_interval :: "int payload" where
  "first_interval = \<lparr> timestamp = 0, speaker = Assistant \<rparr>"

definition second_interval :: "int payload" where
  "second_interval = \<lparr> timestamp = 1500, speaker = User \<rparr>"

definition segments_update :: "string list \<Rightarrow> string metadata" where
  "segments_update segs = \<lparr> type = ''speaker_segments'', data = segs \<rparr>"

definition call_end :: "string metadata" where
  "call_end = \<lparr> type = ''call_end'', data = [] \<rparr>"

definition live_start :: "string live_call" where
  "live_start = \<lparr> speakerSegments = [], callEnded = False, logged_errors = [] \<rparr>"

section \<open>Properties\<close>

subsection \<open>Phone-number validation\<close>

lemma digits_to_end_iff: "digits_to_end cs = (\<forall>c \<in> set cs. isDigit c)"
  by (induction cs) auto

lemma match_digits_iff: "match_digits cs = (cs \<noteq> [] \<and> (\<forall>c \<in> set cs. isDigit c))"
  by (cases cs) (auto simp: digits_to_end_iff)

lemma startsWith_plus: "startsWith s ''+'' = (\<exists>r. s = CHR ''+'' # r)"
  by (cases s) (auto simp: startsWith_def)

lemma validate_accepts_example: "validatePhoneNumber ''+15551234567''"
  by (simp add: validatePhoneNumber_def startsWith_def slice_def isDigit_def)

lemma validate_rejects_no_plus: "\<not> validatePhoneNumber ''15551234567''"
  by (simp add: validatePhoneNumber_def startsWith_def)

lemma validate_rejects_dashes: "\<not> validatePhoneNumber ''+1555-123-4567''"
  by (simp add: validatePhoneNumber_def startsWith_def slice_def isDigit_def)

lemma validate_rejects_empty: "\<not> validatePhoneNumber ''''"
  by (simp add: validatePhoneNumber_def startsWith_def)

text \<open>
  C5. The validator accepts exactly the strings made of \<open>+\<close> followed by one or more
  digits and nothing else; it accepts \<open>+15551234567\<close> and rejects \<open>15551234567\<close>,
  \<open>+1555-123-4567\<close> and the empty string.
\<close>

theorem validatePhoneNumber_exact:
  "(validatePhoneNumber s =
      (\<exists>ds. s = CHR ''+'' # ds \<and> ds \<noteq> [] \<and> (\<forall>c \<in> set ds. isDigit c)))
   \<and> validatePhoneNumber ''+15551234567''
   \<and> \<not> validatePhoneNumber ''15551234567''
   \<and> \<not> validatePhoneNumber ''+1555-123-4567''
   \<and> \<not> validatePhoneNumber ''''"
proof -
  have "validatePhoneNumber s =
      (\<exists>ds. s = CHR ''+'' # ds \<and> ds \<noteq> [] \<and> (\<forall>c \<in> set ds. isDigit c))"
    by (cases s) (auto simp: validatePhoneNumber_def startsWith_def slice_def match_digits_iff)
  then show ?thesis
    using validate_accepts_example validate_rejects_no_plus
      validate_rejects_dashes validate_rejects_empty
    by blast
qed

theorem validatePhoneNumber_exact_witness:
  "validatePhoneNumber ''+442071838750'' \<and> \<not> validatePhoneNumber ''+44 20''"
proof -
  have a: "\<exists>ds. ''+442071838750'' = CHR ''+'' # ds \<and> ds \<noteq> [] \<and> (\<forall>c \<in> set ds. isDigit c)"
    by (simp add: isDigit_def)
  have b: "\<not> (\<exists>ds. ''+44 20'' = CHR ''+'' # ds \<and> ds \<noteq> [] \<and> (\<forall>c \<in> set ds. isDigit c))"
    by (simp add: isDigit_def)
  show ?thesis
    using a b validatePhoneNumber_exact [of "''+442071838750''"]
      validatePhoneNumber_exact [of "''+44 20''"]
    by blast
qed

subsection \<open>The session controller: unfolding and running\<close>

lemmas handler_defs = click_def resume_def startSession_begin_def startSession_credential_def
  startSession_media_def startSession_answer_def setDataChannel_def stopSession_def teardown_end_def
  teardown_begin_def store_settles_def timer_fires_def on_message_def on_open_def

lemmas scenario_defs = session_open_def redial_def double_hang_up_def microphone_refused_def
  credential_refused_def grace_period_def garbled_def hang_up_event_def done_event_def
  audio_event_def is_hang_up_def init_def run_def

lemma run_Nil: "run [] s = s"
  by (simp add: run_def)

lemma run_Cons: "run (a # acts) s = run acts (step a s)"
  by (simp add: run_def)

lemma run_snoc: "run (acts @ [a]) s = step a (run acts s)"
  by (simp add: run_def)

subsection \<open>Only the open event of the channel sets the active flag\<close>

lemma active_resume: "isSessionActive (resume k out s) = isSessionActive s"
  by (simp add: handler_defs Let_def split: prod.splits phase.splits outcome.splits option.splits)

lemma active_teardown_end: "isSessionActive (teardown_end s) = isSessionActive s"
  by (simp add: handler_defs)

lemma active_teardown_begin: "isSessionActive (teardown_begin u dc s) = isSessionActive s"
  by (simp add: handler_defs Let_def split: option.splits)

lemma active_timer_fires: "isSessionActive (timer_fires s) = isSessionActive s"
  by (simp add: timer_fires_def active_teardown_begin split: list.splits prod.splits)

lemma active_store_settles: "isSessionActive (store_settles s) = isSessionActive s"
  by (simp add: store_settles_def active_teardown_end)

lemma active_on_message: "isSessionActive (on_message c u p s) \<Longrightarrow> isSessionActive s"
  by (simp add: on_message_def stopSession_def Let_def split: parsed.splits if_splits)

lemma active_click: "isSessionActive (click s) \<Longrightarrow> isSessionActive s"
  by (simp add: click_def stopSession_def startSession_begin_def split: if_splits)

lemma active_step:
  assumes "isSessionActive (step a s)"
  shows "isSessionActive s \<or> (\<exists>c. a = ChannelOpen c \<and> map_of (listeners s) c \<noteq> None)"
proof (cases a)
  case Click
  then show ?thesis using assms active_click by auto
next
  case (Resume k out)
  then show ?thesis using assms by (simp add: active_resume)
next
  case (ChannelOpen c)
  then show ?thesis using assms by (auto split: option.splits)
next
  case (ChannelMessage c p)
  then show ?thesis using assms active_on_message by (auto split: option.splits)
next
  case (Tick d)
  then show ?thesis using assms by simp
next
  case TimerFires
  then show ?thesis using assms by (simp add: active_timer_fires)
next
  case StoreSettles
  then show ?thesis using assms by (simp add: active_store_settles)
next
  case (PropsChange u)
  then show ?thesis using assms by simp
qed

lemma active_run:
  "isSessionActive (run acts (init u)) \<Longrightarrow>
     \<exists>pre c post. acts = pre @ ChannelOpen c # post \<and> map_of (listeners (run pre (init u))) c \<noteq> None"
proof (induction acts rule: rev_induct)
  case Nil
  then show ?case by (simp add: run_def init_def)
next
  case (snoc a acts)
  from snoc.prems have "isSessionActive (step a (run acts (init u)))"
    by (simp add: run_snoc)
  then consider "isSessionActive (run acts (init u))"
    | c where "a = ChannelOpen c" "map_of (listeners (run acts (init u))) c \<noteq> None"
    using active_step by blast
  then show ?case
  proof cases
    case 1
    then obtain pre c post where "acts = pre @ ChannelOpen c # post"
      "map_of (listeners (run pre (init u))) c \<noteq> None"
      using snoc.IH by blast
    then have "acts @ [a] = pre @ ChannelOpen c # (post @ [a])" by simp
    then show ?thesis using \<open>map_of (listeners (run pre (init u))) c \<noteq> None\<close> by blast
  next
    case 2
    then have "acts @ [a] = acts @ ChannelOpen c # []" by simp
    then show ?thesis using 2 by blast
  qed
qed

text \<open>
  C7. In every state reached from the initial one, the session is marked active only
  if an open event of a data channel with listeners was handled before. No continuation
  of \<open>startSession\<close> (start, credential, media, SDP answer) changes the flag, and the
  only step that turns it on is the channel's open event.
\<close>

theorem active_only_after_open:
  "(isSessionActive (run acts (init u)) \<longrightarrow>
      (\<exists>pre c post. acts = pre @ ChannelOpen c # post \<and>
         map_of (listeners (run pre (init u))) c \<noteq> None))
   \<and> isSessionActive (startSession_begin s) = isSessionActive s
   \<and> isSessionActive (snd (startSession_credential r s)) = isSessionActive s
   \<and> isSessionActive (snd (startSession_media pc ok s)) = isSessionActive s
   \<and> isSessionActive (snd (startSession_answer pc ok s)) = isSessionActive s
   \<and> (isSessionActive (step a s) \<and> \<not> isSessionActive s \<longrightarrow> (\<exists>c. a = ChannelOpen c))
   \<and> isSessionActive (on_open s)"
proof -
  have "isSessionActive (step a s) \<and> \<not> isSessionActive s \<longrightarrow> (\<exists>c. a = ChannelOpen c)"
    using active_step by blast
  moreover have "isSessionActive (run acts (init u)) \<longrightarrow>
      (\<exists>pre c post. acts = pre @ ChannelOpen c # post \<and>
         map_of (listeners (run pre (init u))) c \<noteq> None)"
    using active_run by blast
  moreover have "isSessionActive (startSession_begin s) = isSessionActive s"
    by (simp add: startSession_begin_def)
  moreover have "isSessionActive (snd (startSession_credential r s)) = isSessionActive s"
    by (simp add: startSession_credential_def split: option.splits prod.splits)
  moreover have "isSessionActive (snd (startSession_media pc ok s)) = isSessionActive s"
    by (simp add: startSession_media_def setDataChannel_def)
  moreover have "isSessionActive (snd (startSession_answer pc ok s)) = isSessionActive s"
    by (simp add: startSession_answer_def)
  moreover have "isSessionActive (on_open s)"
    by (simp add: on_open_def)
  ultimately show ?thesis by blast
qed

theorem active_only_after_open_witness:
  "isSessionActive (run session_open (init [])) \<and>
   (\<exists>pre c post. session_open = pre @ ChannelOpen c # post \<and>
         map_of (listeners (run pre (init []))) c \<noteq> None)
   \<and> \<not> isSessionActive (run (butlast session_open) (init []))"
proof -
  have a: "isSessionActive (run session_open (init []))"
    by (simp add: scenario_defs handler_defs)
  have b: "\<not> isSessionActive (run (butlast session_open) (init []))"
    by (simp add: scenario_defs handler_defs)
  show ?thesis
    using a b active_only_after_open [of session_open "[]"] by blast
qed

subsection \<open>Failures while a session starts\<close>

text \<open>
  C3. A failure to get the credential clears the setup flag and shows one error
  notification. A refused microphone does neither: the rejection of \<open>getUserMedia\<close> is
  not caught, the setup flag stays set, the session id stays stored and nothing is
  shown.
\<close>

theorem microphone_refused_not_reset:
  "settingUpSession (run microphone_refused (init u))
   \<and> sessionId (run microphone_refused (init u)) = Some ''sess_1''
   \<and> toasts (run microphone_refused (init u)) = []
   \<and> starts (run microphone_refused (init u)) = [Rejected]
   \<and> \<not> settingUpSession (run credential_refused (init u))
   \<and> toasts (run credential_refused (init u)) =
       [ToastError ''Failed to start call, please try again'']"
  by (simp add: scenario_defs handler_defs toasts_def)

subsection \<open>The clock and the pending timers\<close>

lemma now_resume: "now (resume k out s) = now s"
  by (simp add: handler_defs Let_def split: prod.splits phase.splits outcome.splits option.splits)

lemma now_teardown_begin: "now (teardown_begin u dc s) = now s"
  by (simp add: handler_defs Let_def split: option.splits)

lemma now_timer_fires: "now (timer_fires s) = now s"
  by (simp add: timer_fires_def now_teardown_begin split: list.splits prod.splits)

lemma now_step: "now s \<le> now (step a s)"
  by (cases a) (simp_all add: now_resume now_timer_fires click_def stopSession_def
      startSession_begin_def on_open_def on_message_def store_settles_def teardown_end_def
      setDataChannel_def Let_def split: option.splits parsed.splits)

lemma now_run: "now s \<le> now (run acts s)"
proof (induction acts arbitrary: s)
  case Nil
  then show ?case by (simp add: run_Nil)
next
  case (Cons a acts)
  have "now s \<le> now (step a s)" by (rule now_step)
  also have "\<dots> \<le> now (run acts (step a s))" by (rule Cons.IH)
  finally show ?case by (simp add: run_Cons)
qed

lemma earliest_mem: "earliest t ts \<in> set (t # ts)"
  by (induction ts arbitrary: t) (auto split: if_splits)

lemma timers_resume: "timers (resume k out s) = timers s"
  by (simp add: handler_defs Let_def split: prod.splits phase.splits outcome.splits option.splits)

lemma timers_teardown_begin: "timers (teardown_begin u dc s) = timers s"
  by (simp add: handler_defs Let_def split: option.splits)

lemma timers_timer_fires:
  assumes "t \<in> set (timers s)" and "now s < fst t"
  shows "t \<in> set (timers (timer_fires s))"
proof (cases "timers s")
  case Nil
  then show ?thesis using assms by simp
next
  case (Cons t0 ts)
  obtain due dc u where e: "earliest t0 ts = (due, dc, u)"
    by (cases "earliest t0 ts") auto
  show ?thesis
  proof (cases "due \<le> now s")
    case True
    then have "(due, dc, u) \<noteq> t" using assms(2) by auto
    then have "t \<in> set (remove1 (due, dc, u) (timers s))" using assms(1) by simp
    then show ?thesis using Cons e True
      by (simp add: timer_fires_def timers_teardown_begin)
  next
    case False
    then show ?thesis using Cons e assms(1) by (simp add: timer_fires_def)
  qed
qed

lemma timers_step:
  assumes "t \<in> set (timers s)" and "now s < fst t"
  shows "t \<in> set (timers (step a s))"
proof (cases a)
  case TimerFires
  then show ?thesis using assms timers_timer_fires by simp
next
  case (Resume k out)
  then show ?thesis using assms by (simp add: timers_resume)
qed (use assms in \<open>simp_all add: click_def stopSession_def
      startSession_begin_def on_open_def on_message_def store_settles_def teardown_end_def
      setDataChannel_def Let_def split: option.splits parsed.splits\<close>)

lemma timers_run:
  "t \<in> set (timers s) \<Longrightarrow> now (run acts s) < fst t \<Longrightarrow> t \<in> set (timers (run acts s))"
proof (induction acts arbitrary: s)
  case Nil
  then show ?case by (simp add: run_Nil)
next
  case (Cons a acts)
  have "now s \<le> now (step a s)" by (rule now_step)
  also have "\<dots> \<le> now (run acts (step a s))" by (rule now_run)
  finally have "now s < fst t" using Cons.prems(2) by (simp add: run_Cons)
  then have "t \<in> set (timers (step a s))" using Cons.prems(1) by (rule timers_step [rotated])
  then show ?case using Cons.IH Cons.prems(2) by (simp add: run_Cons)
qed

subsection \<open>The hang-up event\<close>

text \<open>
  C4. A message that parses to an event of type \<open>response.function_call_arguments.done\<close>
  named \<open>hang_up\<close> is appended and then calls \<open>stopSession\<close>, the function of the manual
  stop, with 10000 ms instead of 0: the active flag is cleared at once and the teardown
  is registered for 10000 ms later. Whatever happens meanwhile, that timer is still
  pending as long as the clock is below its due time; a timer that fires runs the one
  teardown; and an event that arrives in any state is appended to the log.
\<close>

theorem hang_up_event_stops_after_grace:
  assumes "is_hang_up ev" and "map_of (listeners s) c = Some u"
  shows "step (ChannelMessage c (Parsed ev)) s =
           stopSession 10000 (Some c) u (s\<lparr>sessionData := sessionData s @ [ev]\<rparr>)
   \<and> (isSessionActive s \<longrightarrow> step Click s = stopSession 0 (dataChannel s) (userInfo s) s)
   \<and> \<not> isSessionActive (step (ChannelMessage c (Parsed ev)) s)
   \<and> timers (step (ChannelMessage c (Parsed ev)) s) = timers s @ [(now s + 10000, Some c, u)]
   \<and> (now (run acts (step (ChannelMessage c (Parsed ev)) s)) < now s + 10000 \<longrightarrow>
        (now s + 10000, Some c, u) \<in> set (timers (run acts (step (ChannelMessage c (Parsed ev)) s))))
   \<and> (timers s' = [(due, dc, u')] \<and> due \<le> now s' \<longrightarrow>
        step TimerFires s' = teardown_begin u' dc (s'\<lparr>timers := []\<rparr>))
   \<and> sessionData (on_message c' u' (Parsed e) s') = sessionData s' @ [e]"
proof -
  let ?s1 = "step (ChannelMessage c (Parsed ev)) s"
  have a: "?s1 = stopSession 10000 (Some c) u (s\<lparr>sessionData := sessionData s @ [ev]\<rparr>)"
    using assms by (simp add: on_message_def Let_def)
  have b: "isSessionActive s \<longrightarrow> step Click s = stopSession 0 (dataChannel s) (userInfo s) s"
    by (simp add: click_def)
  have c: "\<not> isSessionActive ?s1"
    and d: "timers ?s1 = timers s @ [(now s + 10000, Some c, u)]"
    unfolding a by (simp_all add: stopSession_def)
  have e: "(now s + 10000, Some c, u) \<in> set (timers (run acts ?s1))"
    if "now (run acts ?s1) < now s + 10000"
  proof (rule timers_run)
    show "(now s + 10000, Some c, u) \<in> set (timers ?s1)" unfolding d by simp
    show "now (run acts ?s1) < fst (now s + 10000, Some c, u)" using that by simp
  qed
  have f: "timers s' = [(due, dc, u')] \<and> due \<le> now s' \<longrightarrow>
        step TimerFires s' = teardown_begin u' dc (s'\<lparr>timers := []\<rparr>)"
    by (simp add: timer_fires_def)
  have g: "sessionData (on_message c' u' (Parsed e) s') = sessionData s' @ [e]"
    by (simp add: on_message_def stopSession_def Let_def)
  show ?thesis using a b c d e f g by blast
qed

theorem hang_up_event_stops_after_grace_witness:
  "is_hang_up hang_up_event
   \<and> map_of (listeners (run session_open (init []))) 1 = Some []
   \<and> isSessionActive (run session_open (init []))
   \<and> now (run grace_period (step (ChannelMessage 1 (Parsed hang_up_event)) (run session_open (init [])))) = 9999
   \<and> timers (run grace_period (step (ChannelMessage 1 (Parsed hang_up_event)) (run session_open (init []))))
       = [(10000, Some 1, [])]
   \<and> sessionData (run grace_period (step (ChannelMessage 1 (Parsed hang_up_event)) (run session_open (init []))))
       = [hang_up_event, audio_event, done_event]
   \<and> effects (run grace_period (step (ChannelMessage 1 (Parsed hang_up_event)) (run session_open (init [])))) = []
   \<and> store_calls (run (grace_period @ [Tick 1, TimerFires])
        (step (ChannelMessage 1 (Parsed hang_up_event)) (run session_open (init []))))
       = [StoreSession ''sess_1'' [hang_up_event, audio_event, done_event] []]"
proof -
  let ?s = "run session_open (init [])"
  let ?s1 = "step (ChannelMessage 1 (Parsed hang_up_event)) ?s"
  have h1: "is_hang_up hang_up_event"
    by (simp add: is_hang_up_def hang_up_event_def)
  have h2: "map_of (listeners ?s) 1 = Some []"
    by (simp add: scenario_defs handler_defs)
  have act: "isSessionActive ?s"
    by (simp add: scenario_defs handler_defs)
  have n: "now (run grace_period ?s1) = 9999"
    by (simp add: scenario_defs handler_defs)
  have l: "sessionData (run grace_period ?s1) = [hang_up_event, audio_event, done_event]"
    by (simp add: scenario_defs handler_defs)
  have ef: "effects (run grace_period ?s1) = []"
    by (simp add: scenario_defs handler_defs)
  have tm: "timers (run grace_period ?s1) = [(10000, Some 1, [])]"
    by (simp add: scenario_defs handler_defs)
  have st: "store_calls (run (grace_period @ [Tick 1, TimerFires]) ?s1)
       = [StoreSession ''sess_1'' [hang_up_event, audio_event, done_event] []]"
    by (simp add: scenario_defs handler_defs store_calls_def)
  have "(now ?s + 10000, Some 1, []) \<in> set (timers (run grace_period ?s1))"
    using hang_up_event_stops_after_grace [OF h1 h2, of grace_period] n
    by (simp add: scenario_defs handler_defs)
  then show ?thesis using h1 h2 act n l ef tm st by simp
qed

subsection \<open>The event log and what is persisted\<close>

lemma sessionData_resume: "sessionData (resume k out s) = sessionData s"
  by (simp add: handler_defs Let_def split: prod.splits phase.splits outcome.splits option.splits)

lemma sessionData_on_message:
  "sessionData (on_message c u p s) = sessionData s @ (case p of SyntaxError \<Rightarrow> [] | Parsed e \<Rightarrow> [e])"
  by (cases p) (simp_all add: on_message_def stopSession_def Let_def)

lemma sessionData_teardown_end: "sessionData (teardown_end s) = []"
  by (simp add: teardown_end_def)

lemma sessionData_teardown_begin:
  "sessionData (teardown_begin u dc s) = sessionData s \<or> sessionData (teardown_begin u dc s) = []"
  by (simp add: handler_defs Let_def split: option.splits)

lemma sessionData_timer_fires:
  "sessionData (timer_fires s) = sessionData s \<or> sessionData (timer_fires s) = []"
proof (cases "timers s")
  case Nil
  then show ?thesis by (simp add: timer_fires_def)
next
  case (Cons t ts)
  obtain due dc u where e: "earliest t ts = (due, dc, u)"
    by (cases "earliest t ts") auto
  show ?thesis
    using Cons e sessionData_teardown_begin [of u dc "s\<lparr>timers := remove1 (due, dc, u) (timers s)\<rparr>"]
    by (simp add: timer_fires_def)
qed

lemma log_step:
  "sessionData (step a s) = sessionData s @ delivered s a
   \<or> sessionData (step a s) = [] \<and> (a = TimerFires \<or> a = StoreSettles)"
proof (cases a)
  case Click
  then show ?thesis by (simp add: click_def stopSession_def startSession_begin_def)
next
  case (Resume k out)
  then show ?thesis by (simp add: sessionData_resume)
next
  case (ChannelOpen c)
  then show ?thesis by (simp add: on_open_def split: option.splits)
next
  case (ChannelMessage c p)
  then show ?thesis
    by (cases p) (simp_all add: sessionData_on_message split: option.splits)
next
  case (Tick d)
  then show ?thesis by simp
next
  case TimerFires
  then show ?thesis using sessionData_timer_fires [of s] by auto
next
  case StoreSettles
  then show ?thesis by (simp add: store_settles_def sessionData_teardown_end)
next
  case (PropsChange u)
  then show ?thesis by simp
qed

lemma store_calls_resume: "store_calls (resume k out s) = store_calls s"
  by (simp add: handler_defs store_calls_def Let_def
      split: prod.splits phase.splits outcome.splits option.splits)

lemma store_calls_teardown_begin:
  "store_calls (teardown_begin u dc s) = store_calls s
   \<or> (\<exists>ident. sessionId s = Some ident \<and> ident \<noteq> [] \<and> sessionData s \<noteq> []
        \<and> store_calls (teardown_begin u dc s) =
            store_calls s @ [StoreSession ident (sessionData s) u])"
  by (simp add: handler_defs store_calls_def Let_def split: option.splits)

lemma store_calls_timer_fires:
  "store_calls (timer_fires s) = store_calls s
   \<or> (\<exists>ident u. sessionId s = Some ident \<and> ident \<noteq> [] \<and> sessionData s \<noteq> []
        \<and> store_calls (timer_fires s) = store_calls s @ [StoreSession ident (sessionData s) u])"
proof (cases "timers s")
  case Nil
  then show ?thesis by (simp add: timer_fires_def)
next
  case (Cons t ts)
  obtain due dc u where e: "earliest t ts = (due, dc, u)"
    by (cases "earliest t ts") auto
  let ?s = "s\<lparr>timers := remove1 (due, dc, u) (timers s)\<rparr>"
  have same: "store_calls ?s = store_calls s" "sessionId ?s = sessionId s"
    "sessionData ?s = sessionData s"
    by (simp_all add: store_calls_def)
  show ?thesis
  proof (cases "due \<le> now s")
    case True
    then have "timer_fires s = teardown_begin u dc ?s"
      using Cons e by (simp add: timer_fires_def)
    then show ?thesis using store_calls_teardown_begin [of u dc ?s] same by auto
  next
    case False
    then show ?thesis using Cons e by (simp add: timer_fires_def)
  qed
qed

lemma store_step:
  "store_calls (step a s) = store_calls s
   \<or> (\<exists>ident u. a = TimerFires \<and> sessionId s = Some ident \<and> ident \<noteq> []
        \<and> sessionData s \<noteq> []
        \<and> store_calls (step a s) = store_calls s @ [StoreSession ident (sessionData s) u])"
proof (cases a)
  case Click
  then show ?thesis by (simp add: click_def stopSession_def startSession_begin_def store_calls_def)
next
  case (Resume k out)
  then show ?thesis by (simp add: store_calls_resume)
next
  case (ChannelOpen c)
  then show ?thesis by (simp add: on_open_def store_calls_def split: option.splits)
next
  case (ChannelMessage c p)
  then show ?thesis
    by (cases p) (simp_all add: on_message_def stopSession_def store_calls_def Let_def
        split: option.splits)
next
  case (Tick d)
  then show ?thesis by (simp add: store_calls_def)
next
  case TimerFires
  then show ?thesis using store_calls_timer_fires [of s] by auto
next
  case StoreSettles
  then show ?thesis
    by (simp add: store_settles_def teardown_end_def setDataChannel_def store_calls_def)
next
  case (PropsChange u)
  then show ?thesis by (simp add: store_calls_def)
qed

lemma no_store_without_teardown:
  "\<forall>a \<in> set acts. a \<noteq> TimerFires \<Longrightarrow> store_calls (run acts s) = store_calls s"
proof (induction acts arbitrary: s)
  case Nil
  then show ?case by (simp add: run_Nil)
next
  case (Cons a acts)
  have "store_calls (step a s) = store_calls s"
    using Cons.prems store_step [of a s] by auto
  moreover have "store_calls (run acts (step a s)) = store_calls (step a s)"
    using Cons.prems by (intro Cons.IH) simp
  ultimately show ?case by (simp add: run_Cons)
qed

lemma arrivals_snoc: "arrivals (acts @ [a]) s = arrivals acts s @ delivered (run acts s) a"
  by (induction acts arbitrary: s) (simp_all add: run_Nil run_Cons)

lemma log_without_teardown:
  "\<forall>a \<in> set acts. a \<noteq> TimerFires \<and> a \<noteq> StoreSettles \<Longrightarrow>
     sessionData (run acts s) = sessionData s @ arrivals acts s"
proof (induction acts arbitrary: s)
  case Nil
  then show ?case by (simp add: run_Nil)
next
  case (Cons a acts)
  have "sessionData (step a s) = sessionData s @ delivered s a"
    using Cons.prems log_step [of a s] by auto
  moreover have "sessionData (run acts (step a s)) =
      sessionData (step a s) @ arrivals acts (step a s)"
    using Cons.prems by (intro Cons.IH) simp
  ultimately show ?case by (simp add: run_Cons)
qed

lemma log_is_tail:
  "\<exists>pre. sessionData s @ arrivals acts s = pre @ sessionData (run acts s)"
proof (induction acts rule: rev_induct)
  case Nil
  have "sessionData s @ arrivals [] s = [] @ sessionData (run [] s)"
    by (simp add: run_Nil)
  then show ?case by blast
next
  case (snoc a acts)
  then obtain pre where pre: "sessionData s @ arrivals acts s = pre @ sessionData (run acts s)"
    by blast
  let ?d = "delivered (run acts s) a"
  have all: "sessionData s @ arrivals (acts @ [a]) s = pre @ sessionData (run acts s) @ ?d"
    using pre by (simp add: arrivals_snoc)
  consider "sessionData (step a (run acts s)) = sessionData (run acts s) @ ?d"
    | "sessionData (step a (run acts s)) = []"
    using log_step [of a "run acts s"] by blast
  then show ?case
  proof cases
    case 1
    then have "sessionData s @ arrivals (acts @ [a]) s = pre @ sessionData (run (acts @ [a]) s)"
      using all by (simp add: run_snoc)
    then show ?thesis by blast
  next
    case 2
    then have "sessionData s @ arrivals (acts @ [a]) s =
        (pre @ sessionData (run acts s) @ ?d) @ sessionData (run (acts @ [a]) s)"
      using all by (simp add: run_snoc)
    then show ?thesis by blast
  qed
qed

lemma first_teardown_persists_arrivals:
  assumes "\<forall>a \<in> set acts. a \<noteq> TimerFires \<and> a \<noteq> StoreSettles"
  shows "store_calls (run (acts @ [TimerFires]) (init u0)) = []
   \<or> (\<exists>ident u. store_calls (run (acts @ [TimerFires]) (init u0)) =
          [StoreSession ident (arrivals acts (init u0)) u])"
proof -
  let ?r = "run acts (init u0)"
  have none: "store_calls ?r = []"
    using assms no_store_without_teardown [of acts "init u0"]
    by (simp add: init_def store_calls_def)
  have log: "sessionData ?r = arrivals acts (init u0)"
    using assms log_without_teardown [of acts "init u0"] by (simp add: init_def)
  show ?thesis
    using store_step [of TimerFires ?r] none log by (auto simp: run_snoc)
qed

lemma persisted_is_part:
  "\<forall>e \<in> set (store_calls (run acts s)).
     e \<in> set (store_calls s) \<or>
     (\<exists>ident d u pre post. e = StoreSession ident d u \<and>
        sessionData s @ arrivals acts s = pre @ d @ post)"
proof (induction acts rule: rev_induct)
  case Nil
  then show ?case by (simp add: run_Nil)
next
  case (snoc a acts)
  let ?r = "run acts s"
  let ?d = "delivered ?r a"
  have ext: "sessionData s @ arrivals (acts @ [a]) s = (sessionData s @ arrivals acts s) @ ?d"
    by (simp add: arrivals_snoc)
  show ?case
  proof
    fix e
    assume "e \<in> set (store_calls (run (acts @ [a]) s))"
    then have mem: "e \<in> set (store_calls (step a ?r))" by (simp add: run_snoc)
    consider "e \<in> set (store_calls ?r)"
      | ident u where "e = StoreSession ident (sessionData ?r) u"
      using mem store_step [of a ?r] by auto
    then show "e \<in> set (store_calls s) \<or>
     (\<exists>ident d u pre post. e = StoreSession ident d u \<and>
        sessionData s @ arrivals (acts @ [a]) s = pre @ d @ post)"
    proof cases
      case 1
      then consider "e \<in> set (store_calls s)"
        | ident d u pre post where "e = StoreSession ident d u"
            "sessionData s @ arrivals acts s = pre @ d @ post"
        using snoc.IH by blast
      then show ?thesis
      proof cases
        case 1
        then show ?thesis by blast
      next
        case 2
        then have "sessionData s @ arrivals (acts @ [a]) s = pre @ d @ (post @ ?d)"
          using ext by simp
        then show ?thesis using 2(1) by blast
      qed
    next
      case 2
      obtain pre where "sessionData s @ arrivals acts s = pre @ sessionData ?r"
        using log_is_tail by blast
      then have "sessionData s @ arrivals (acts @ [a]) s = pre @ sessionData ?r @ ?d"
        using ext by simp
      then show ?thesis using 2 by blast
    qed
  qed
qed

text \<open>
  A message that is not JSON is not appended: of three messages that arrived, two are
  persisted. And an event that parses may never be persisted: in \<open>redial\<close> the event of
  the second session is appended while the session id is \<open>null\<close> and the teardown
  empties the log; the one call made stores the hang-up event of the first session
  under the id of the second.
\<close>

theorem arrival_sequence_counterexample:
  "store_calls (run garbled (init [])) = [StoreSession ''sess_1'' [audio_event, done_event] []]
   \<and> sessionData (step (ChannelMessage 1 SyntaxError) (run session_open (init []))) = []
   \<and> arrivals (redial @ [TimerFires]) (init []) = [hang_up_event, done_event]
   \<and> sessionData (run redial (init [])) = [done_event]
   \<and> sessionData (run (redial @ [TimerFires]) (init [])) = []
   \<and> store_calls (run (redial @ [TimerFires]) (init [])) =
       [StoreSession ''sess_2'' [hang_up_event] []]"
  by (simp add: scenario_defs handler_defs store_calls_def)

text \<open>
  C6, amended. A message that parses and reaches the message listener is appended to
  the end of the event log when it arrives. Every step either appends the event it
  delivers and changes nothing else of the log, or, a teardown only, empties the log:
  no deduplication, reordering or batching. So the log is always the tail of the
  arrival sequence, and all of it while no teardown has run. A teardown that persists
  sends exactly the log of that moment: the first teardown of a run, if it persists,
  sends the whole arrival sequence, and every persisted sequence is a contiguous part
  of the arrival sequence, in arrival order. A message that does not parse leaves the
  log as it is. That every logged event is persisted is not part of the statement.
\<close>

theorem parsed_events_logged_in_arrival_order:
  "(map_of (listeners s) c = Some u \<longrightarrow>
      sessionData (step (ChannelMessage c (Parsed e)) s) = sessionData s @ [e]
      \<and> sessionData (step (ChannelMessage c SyntaxError) s) = sessionData s)
   \<and> (sessionData (step a s) = sessionData s @ delivered s a
        \<or> sessionData (step a s) = [] \<and> (a = TimerFires \<or> a = StoreSettles))
   \<and> ((\<forall>a \<in> set acts. a \<noteq> TimerFires \<and> a \<noteq> StoreSettles) \<longrightarrow>
        sessionData (run acts s) = sessionData s @ arrivals acts s)
   \<and> (\<exists>pre. sessionData s @ arrivals acts s = pre @ sessionData (run acts s))
   \<and> (store_calls (step a s) = store_calls s
        \<or> (\<exists>ident u'. a = TimerFires \<and> sessionId s = Some ident \<and> ident \<noteq> []
             \<and> sessionData s \<noteq> []
             \<and> store_calls (step a s) = store_calls s @ [StoreSession ident (sessionData s) u']))
   \<and> ((\<forall>a \<in> set acts. a \<noteq> TimerFires \<and> a \<noteq> StoreSettles) \<longrightarrow>
        store_calls (run (acts @ [TimerFires]) (init u0)) = []
        \<or> (\<exists>ident u'. store_calls (run (acts @ [TimerFires]) (init u0)) =
              [StoreSession ident (arrivals acts (init u0)) u']))
   \<and> (\<forall>x \<in> set (store_calls (run acts (init u0))).
        \<exists>ident d u' pre post. x = StoreSession ident d u' \<and>
          arrivals acts (init u0) = pre @ d @ post)"
proof -
  have one: "map_of (listeners s) c = Some u \<longrightarrow>
      sessionData (step (ChannelMessage c (Parsed e)) s) = sessionData s @ [e]
      \<and> sessionData (step (ChannelMessage c SyntaxError) s) = sessionData s"
    by (simp add: sessionData_on_message)
  have part: "\<forall>x \<in> set (store_calls (run acts (init u0))).
        \<exists>ident d u' pre post. x = StoreSession ident d u' \<and>
          arrivals acts (init u0) = pre @ d @ post"
    using persisted_is_part [of acts "init u0"] by (simp add: init_def store_calls_def)
  show ?thesis
    using one log_step [of a s] log_without_teardown [of acts s] log_is_tail [of s acts]
      store_step [of a s] first_teardown_persists_arrivals [of acts u0] part
    by blast
qed

theorem parsed_events_logged_in_arrival_order_witness:
  "arrivals garbled (init []) = [audio_event, done_event]
   \<and> sessionData (run (butlast garbled) (init [])) = [audio_event, done_event]
   \<and> store_calls (run garbled (init [])) = [StoreSession ''sess_1'' [audio_event, done_event] []]
   \<and> (\<exists>ident d u' pre post.
         StoreSession ''sess_1'' [audio_event, done_event] [] = StoreSession ident d u' \<and>
         arrivals garbled (init []) = pre @ d @ post)"
proof -
  have a: "arrivals garbled (init []) = [audio_event, done_event]"
    by (simp add: scenario_defs handler_defs)
  have b: "arrivals (butlast garbled) (init []) = [audio_event, done_event]"
    by (simp add: scenario_defs handler_defs)
  have c: "store_calls (run garbled (init [])) =
      [StoreSession ''sess_1'' [audio_event, done_event] []]"
    by (simp add: scenario_defs handler_defs store_calls_def)
  have d: "\<forall>a \<in> set (butlast garbled). a \<noteq> TimerFires \<and> a \<noteq> StoreSettles"
    by (simp add: scenario_defs)
  have e: "sessionData (init []) = []"
    by (simp add: init_def)
  have "sessionData (run (butlast garbled) (init [])) = [audio_event, done_event]"
    using b d e parsed_events_logged_in_arrival_order [where acts = "butlast garbled"
        and s = "init []"]
    by simp
  moreover have "\<exists>ident d u' pre post.
         StoreSession ''sess_1'' [audio_event, done_event] [] = StoreSession ident d u' \<and>
         arrivals garbled (init []) = pre @ d @ post"
    using c parsed_events_logged_in_arrival_order [where acts = garbled and ?u0.0 = "[]"]
    by simp
  ultimately show ?thesis using a c by blast
qed

subsection \<open>When a teardown persists\<close>

text \<open>
  The log is not empty, the session id is \<open>null\<close>: the teardown of the second session
  of \<open>redial\<close> runs, clears the log and calls nothing.
\<close>

theorem redial_teardown_counterexample:
  "sessionData (run redial (init [])) \<noteq> []
   \<and> sessionId (run redial (init [])) = None
   \<and> timers (run redial (init [])) = [(10000, Some 3, [])]
   \<and> now (run redial (init [])) = 10000
   \<and> store_calls (step TimerFires (run redial (init []))) = store_calls (run redial (init []))
   \<and> sessionData (step TimerFires (run redial (init []))) = []"
  by (simp add: scenario_defs handler_defs store_calls_def)

text \<open>
  C2, amended. A teardown calls \<open>storeSession\<close> if and only if, at the moment it runs,
  the session id is set (neither \<open>null\<close> nor empty) and the event log is not empty;
  it then makes exactly one call, with the id, the accumulated events and the user
  info, and otherwise none. The continuation after the request makes no call.
\<close>

theorem teardown_persists_iff:
  "store_calls (teardown_begin u dc s) =
     store_calls s @
     (case sessionId s of
        None \<Rightarrow> []
      | Some ident \<Rightarrow>
          if ident \<noteq> [] \<and> sessionData s \<noteq> [] then [StoreSession ident (sessionData s) u]
          else [])
   \<and> store_calls (store_settles s) = store_calls s"
  by (simp add: handler_defs store_calls_def Let_def split: option.splits)

theorem teardown_persists_iff_witness:
  "store_calls (teardown_begin [] (Some 1)
      (run (session_open @ [ChannelMessage 1 (Parsed done_event)]) (init []))) =
     [StoreSession ''sess_1'' [done_event] []]
   \<and> store_calls (teardown_begin [] (Some 1) (run session_open (init []))) = []"
proof -
  have a: "sessionId (run (session_open @ [ChannelMessage 1 (Parsed done_event)]) (init []))
        = Some ''sess_1''"
    "sessionData (run (session_open @ [ChannelMessage 1 (Parsed done_event)]) (init []))
        = [done_event]"
    "store_calls (run (session_open @ [ChannelMessage 1 (Parsed done_event)]) (init [])) = []"
    by (simp_all add: scenario_defs handler_defs store_calls_def)
  have b: "sessionData (run session_open (init [])) = []"
    "sessionId (run session_open (init [])) = Some ''sess_1''"
    "store_calls (run session_open (init [])) = []"
    by (simp_all add: scenario_defs handler_defs store_calls_def)
  show ?thesis
    using a b
      teardown_persists_iff [of "[]" "Some 1"
        "run (session_open @ [ChannelMessage 1 (Parsed done_event)]) (init [])"]
      teardown_persists_iff [of "[]" "Some 1" "run session_open (init [])"]
    by simp
qed

subsection \<open>Several teardowns\<close>









section \<open>Properties of the agent versions\<close>

text \<open>
  C1. After a save the new version is first in the list and every version that was
  there before is inactive, whatever its base: the other agent, \<open>recall\<close>, had one
  active version before the save of \<open>intake\<close> and has none after it.
\<close>

theorem save_deactivates_other_bases:
  "active_versions ''recall'' (agents editing_intake) = [recall_v1]
   \<and> active_versions ''recall''
        (agents (handleSaveVersion (\<lambda>n m b a. Some intake_v2) editing_intake)) = []
   \<and> active_versions ''intake''
        (agents (handleSaveVersion (\<lambda>n m b a. Some intake_v2) editing_intake)) = [intake_v2]"
  by (simp add: handleSaveVersion_def editing_intake_def intake_v1_def intake_v2_def
      recall_v1_def active_versions_def)

section \<open>Properties of the background streams\<close>

lemma speaker_task_payloads:
  "speaker_task (map Yield ps @ rest) s =
     speaker_task rest (s\<lparr>speakerIntervals := speakerIntervals s @ ps\<rparr>)"
  by (induction ps arbitrary: s) simp_all

text \<open>
  C8. After a call is placed the payloads are pushed for as long as the stream neither
  ends nor throws, and the call stays in progress. When the stream ends or throws, the
  task finishes with the playing flag cleared, the call id \<open>null\<close> and the buffer empty;
  the exception goes to the console only, no error notification is raised.
\<close>

theorem speaker_stream_end_resets:
  "(t = Done \<or> t = Throw e \<longrightarrow>
      fst (handleCallPhoneNumber (Some ident) (map Yield ps @ t # rest) s) = Finished
      \<and> isPlaying (snd (handleCallPhoneNumber (Some ident) (map Yield ps @ t # rest) s)) = False
      \<and> phoneCallId (snd (handleCallPhoneNumber (Some ident) (map Yield ps @ t # rest) s)) = None
      \<and> speakerIntervals (snd (handleCallPhoneNumber (Some ident) (map Yield ps @ t # rest) s)) = []
      \<and> toast_errors (snd (handleCallPhoneNumber (Some ident) (map Yield ps @ t # rest) s)) = toast_errors s)
   \<and> fst (handleCallPhoneNumber (Some ident) (map Yield ps) s) = Consuming
   \<and> isPlaying (snd (handleCallPhoneNumber (Some ident) (map Yield ps) s)) = True
   \<and> phoneCallId (snd (handleCallPhoneNumber (Some ident) (map Yield ps) s)) = Some ident
   \<and> speakerIntervals (snd (handleCallPhoneNumber (Some ident) (map Yield ps) s)) = speakerIntervals s @ ps"
proof -
  have "speaker_task (map Yield ps) s' = (Consuming, s'\<lparr>speakerIntervals := speakerIntervals s' @ ps\<rparr>)" for s' :: "'a primary_page"
    using speaker_task_payloads [of ps "[]" s'] by simp
  then have run: "handleCallPhoneNumber (Some ident) (map Yield ps) s =
      (Consuming, s\<lparr>phoneCallId := Some ident, isPlaying := True,
               audioRef := (case audioRef s of
                              None \<Rightarrow> None
                            | Some src \<Rightarrow> Some (''/api/v1/phone/stream-audio/'' @ ident)),
               speakerIntervals := speakerIntervals s @ ps\<rparr>)"
    by (simp add: handleCallPhoneNumber_def)
  have fin: "fst (handleCallPhoneNumber (Some ident) (map Yield ps @ t # rest) s) = Finished
      \<and> isPlaying (snd (handleCallPhoneNumber (Some ident) (map Yield ps @ t # rest) s)) = False
      \<and> phoneCallId (snd (handleCallPhoneNumber (Some ident) (map Yield ps @ t # rest) s)) = None
      \<and> speakerIntervals (snd (handleCallPhoneNumber (Some ident) (map Yield ps @ t # rest) s)) = []
      \<and> toast_errors (snd (handleCallPhoneNumber (Some ident) (map Yield ps @ t # rest) s)) = toast_errors s"
    if "t = Done \<or> t = Throw e"
    using that by (auto simp: handleCallPhoneNumber_def speaker_task_payloads reset_call_def)
  show ?thesis using fin by (simp add: run)
qed

theorem speaker_stream_end_resets_witness:
  "handleCallPhoneNumber (Some ''call_1'')
      [Yield first_interval, Yield second_interval, Throw ''network error''] idle_page =
     (Finished, idle_page\<lparr>audioRef := Some ''/api/v1/phone/stream-audio/call_1'',
        console_errors := [''network error'']\<rparr>)
   \<and> snd (handleCallPhoneNumber (Some ''call_1'')
      [Yield first_interval, Yield second_interval, Done] idle_page) =
     idle_page\<lparr>audioRef := Some ''/api/v1/phone/stream-audio/call_1''\<rparr>
   \<and> speakerIntervals (snd (handleCallPhoneNumber (Some ''call_1'')
      [Yield first_interval, Yield second_interval] idle_page)) = [first_interval, second_interval]"
proof -
  have a: "handleCallPhoneNumber (Some ''call_1'')
      [Yield first_interval, Yield second_interval, Throw ''network error''] idle_page =
     (Finished, idle_page\<lparr>audioRef := Some ''/api/v1/phone/stream-audio/call_1'',
        console_errors := [''network error'']\<rparr>)"
    by (simp add: handleCallPhoneNumber_def reset_call_def idle_page_def)
  have b: "snd (handleCallPhoneNumber (Some ''call_1'')
      [Yield first_interval, Yield second_interval, Done] idle_page) =
     idle_page\<lparr>audioRef := Some ''/api/v1/phone/stream-audio/call_1''\<rparr>"
    by (simp add: handleCallPhoneNumber_def reset_call_def idle_page_def)
  have c: "speakerIntervals idle_page = []"
    by (simp add: idle_page_def)
  show ?thesis
    using a b c
      speaker_stream_end_resets [where t = Done and e = "''x''" and ident = "''call_1''"
        and ps = "[first_interval, second_interval]" and rest = "[]" and s = idle_page]
    by simp
qed

lemma metadata_loop_updates:
  "\<forall>p \<in> set ps. type p \<noteq> ''call_end'' \<Longrightarrow>
     metadata_loop (map Yield ps @ rest) s =
       metadata_loop rest (if ps = [] then s else s\<lparr>speakerSegments := data (last ps)\<rparr>)"
  by (induction ps arbitrary: s) auto

text \<open>
  C10. In the metadata consumer, a payload whose type is not \<open>call_end\<close> replaces the
  whole list of speaker segments by its data: after it the list is that data, whatever
  came before. A payload of type \<open>call_end\<close> sets the call-ended flag, ends the
  consumption whatever follows in the stream, and leaves the list as the last update
  set it.
\<close>

theorem metadata_last_write_wins:
  assumes "\<forall>p \<in> set ps. type p \<noteq> ''call_end''" and "ident \<noteq> []"
  shows "(type q \<noteq> ''call_end'' \<longrightarrow>
            runMetadataStream (Some ident) (map Yield (ps @ [q])) s = (Consuming, s\<lparr>speakerSegments := data q\<rparr>))
   \<and> (type q = ''call_end'' \<longrightarrow>
        runMetadataStream (Some ident) (map Yield ps @ Yield q # rest) s =
          (Finished, (snd (runMetadataStream (Some ident) (map Yield ps) s))\<lparr>callEnded := True\<rparr>))
   \<and> speakerSegments (snd (runMetadataStream (Some ident) (map Yield ps) s)) =
        (if ps = [] then speakerSegments s else data (last ps))
   \<and> callEnded (snd (runMetadataStream (Some ident) (map Yield ps) s)) = callEnded s"
proof -
  have base: "runMetadataStream (Some ident) (map Yield ps) s =
      (Consuming, if ps = [] then s else s\<lparr>speakerSegments := data (last ps)\<rparr>)"
    using assms metadata_loop_updates [of ps "[]" s] by (simp add: runMetadataStream_def)
  have a: "runMetadataStream (Some ident) (map Yield (ps @ [q])) s = (Consuming, s\<lparr>speakerSegments := data q\<rparr>)"
    if "type q \<noteq> ''call_end''"
    using assms that metadata_loop_updates [of "ps @ [q]" "[]" s] by (simp add: runMetadataStream_def)
  have b: "runMetadataStream (Some ident) (map Yield ps @ Yield q # rest) s =
          (Finished, (snd (runMetadataStream (Some ident) (map Yield ps) s))\<lparr>callEnded := True\<rparr>)"
    if "type q = ''call_end''"
    using assms that metadata_loop_updates [of ps "Yield q # rest" s]
    by (simp add: base) (simp add: runMetadataStream_def)
  show ?thesis using a b by (simp add: base)
qed

theorem metadata_last_write_wins_witness:
  "runMetadataStream (Some ''call_1'')
      [Yield (segments_update [''a'']), Yield (segments_update [''a'', ''b'']),
       Yield call_end, Yield (segments_update [''c''])] live_start =
     (Finished, live_start\<lparr>speakerSegments := [''a'', ''b''], callEnded := True\<rparr>)
   \<and> runMetadataStream (Some ''call_1'')
      [Yield (segments_update [''a'']), Yield (segments_update [''a'', ''b'']),
       Yield (segments_update [''c''])] live_start =
     (Consuming, live_start\<lparr>speakerSegments := [''c'']\<rparr>)"
proof -
  let ?ps = "[segments_update [''a''], segments_update [''a'', ''b'']]"
  have h1: "\<forall>p \<in> set ?ps. type p \<noteq> ''call_end''"
    by (simp add: segments_update_def)
  have h2: "''call_1'' \<noteq> []"
    by simp
  have e: "type call_end = ''call_end''"
    by (simp add: call_end_def)
  have n: "type (segments_update [''c'']) \<noteq> ''call_end''" "data (segments_update [''c'']) = [''c'']"
    by (simp_all add: segments_update_def)
  have base: "snd (runMetadataStream (Some ''call_1'') (map Yield ?ps) live_start) =
      live_start\<lparr>speakerSegments := [''a'', ''b'']\<rparr>"
    by (simp add: runMetadataStream_def segments_update_def)
  show ?thesis
    using e n base
      metadata_last_write_wins [OF h1 h2, where q = call_end
        and rest = "[Yield (segments_update [''c''])]" and s = live_start]
      metadata_last_write_wins [OF h1 h2, where q = "segments_update [''c'']"
        and rest = "[]" and s = live_start]
    by simp
qed

end
